theory Spec2Isabelle
  imports Complex_Main
begin

section \<open>Projection engine\<close>

text \<open>
  The numbers of \<open>projectTo2D\<close> are modelled as real numbers extended by \<open>NaN\<close>,
  which the source produces when it divides zero by a zero norm. Rounding, overflow
  and signed zeros of the IEEE doubles are not modelled, so the model has no
  infinities; a division of a nonzero number by zero, which no division of the source
  reaches from finite inputs in this model (the divisors are the length of a non-empty
  batch and norms, and a zero norm belongs to a zero vector), is given \<open>NaN\<close> as well.
  \<open>NaN\<close> propagates through arithmetic and makes every comparison false.
\<close>

datatype num = Fin real | NaN

fun jadd :: "num \<Rightarrow> num \<Rightarrow> num" where
  "jadd (Fin a) (Fin b) = Fin (a + b)"
| "jadd _ _ = NaN"

fun jsub :: "num \<Rightarrow> num \<Rightarrow> num" where
  "jsub (Fin a) (Fin b) = Fin (a - b)"
| "jsub _ _ = NaN"

fun jmul :: "num \<Rightarrow> num \<Rightarrow> num" where
  "jmul (Fin a) (Fin b) = Fin (a * b)"
| "jmul _ _ = NaN"

fun jdiv :: "num \<Rightarrow> num \<Rightarrow> num" where
  "jdiv (Fin a) (Fin b) = (if b = 0 then NaN else Fin (a / b))"
| "jdiv _ _ = NaN"

fun jsqrt :: "num \<Rightarrow> num" where
  "jsqrt (Fin a) = (if a < 0 then NaN else Fin (sqrt a))"
| "jsqrt NaN = NaN"

fun jgt :: "num \<Rightarrow> num \<Rightarrow> bool" where
  "jgt (Fin a) (Fin b) = (a > b)"
| "jgt _ _ = False"

text \<open>
  Reading \<open>b[i]\<close> in an arithmetic expression: out of range the source reads
  \<open>undefined\<close>, which arithmetic turns into \<open>NaN\<close>.
\<close>

definition elemAt :: "num list \<Rightarrow> nat \<Rightarrow> num" where
  "elemAt b i = (if i < length b then b ! i else NaN)"

text \<open>\<open>a.reduce((sum, x, i) => sum + x * b[i], 0)\<close>\<close>

definition dotProduct :: "num list \<Rightarrow> num list \<Rightarrow> num" where
  "dotProduct a b = foldl (\<lambda>sum (i, x). jadd sum (jmul x (elemAt b i))) (Fin 0) (enumerate 0 a)"

text \<open>
  \<open>new Array(dim).fill(0).map(() => Math.random() - 0.5)\<close>: the draws of
  \<open>Math.random\<close> are an argument, \<open>rand i\<close> being the \<open>i\<close>-th draw of the call.
\<close>

definition randomVector :: "(nat \<Rightarrow> real) \<Rightarrow> nat \<Rightarrow> num list" where
  "randomVector rand dimn = map (\<lambda>i. Fin (rand i - 1 / 2)) [0..<dimn]"

text \<open>\<open>v.map(x => x / norm)\<close> with \<open>norm = Math.sqrt(dotProduct(v, v))\<close>, unguarded.\<close>

definition normalize :: "num list \<Rightarrow> num list" where
  "normalize v = (let norm = jsqrt (dotProduct v v) in map (\<lambda>x. jdiv x norm) v)"

text \<open>
  The inner loops of the power iteration: \<open>result\<close> starts as \<open>dim\<close> zeros and every
  row adds \<open>row[i] * proj\<close> to \<open>result[i]\<close>, for \<open>i < dim\<close>.
\<close>

definition addRow :: "nat \<Rightarrow> num list \<Rightarrow> num list \<Rightarrow> num list \<Rightarrow> num list" where
  "addRow dimn v result row =
     (let proj = dotProduct row v
      in map (\<lambda>i. jadd (elemAt result i) (jmul (elemAt row i) proj)) [0..<dimn])"

definition covApply :: "num list list \<Rightarrow> nat \<Rightarrow> num list \<Rightarrow> num list" where
  "covApply data dimn v = foldl (addRow dimn v) (replicate dimn (Fin 0)) data"

text \<open>The guarded renormalisation that ends a round: \<open>if (norm > 1e-10) v = ...\<close>.\<close>

definition renormalize :: "num list \<Rightarrow> num list \<Rightarrow> num list" where
  "renormalize result v =
     (let norm = jsqrt (dotProduct result result)
      in if jgt norm (Fin (1 / 10 ^ 10)) then map (\<lambda>x. jdiv x norm) result else v)"

text \<open>The \<open>for\<close> loops with a fixed number of rounds.\<close>

fun rounds :: "nat \<Rightarrow> ('a \<Rightarrow> 'a) \<Rightarrow> 'a \<Rightarrow> 'a" where
  "rounds 0 f v = v"
| "rounds (Suc k) f v = rounds k f (f v)"

definition powerStep :: "num list list \<Rightarrow> nat \<Rightarrow> num list \<Rightarrow> num list" where
  "powerStep data dimn v = renormalize (covApply data dimn v) v"

definition powerIteration :: "(nat \<Rightarrow> real) \<Rightarrow> num list list \<Rightarrow> nat \<Rightarrow> num list" where
  "powerIteration rand data dimn =
     (let v = randomVector rand dimn;
          v = normalize v
      in rounds 50 (powerStep data dimn) v)"

text \<open>\<open>x - proj1 * pc1[i]\<close> at every index of a vector.\<close>

definition removeComponent :: "num list \<Rightarrow> num list \<Rightarrow> num list" where
  "removeComponent pc1 v =
     (let proj1 = dotProduct v pc1
      in map (\<lambda>(i, x). jsub x (jmul proj1 (elemAt pc1 i))) (enumerate 0 v))"

definition orthStep :: "num list list \<Rightarrow> nat \<Rightarrow> num list \<Rightarrow> num list \<Rightarrow> num list" where
  "orthStep data dimn pc1 v =
     (let result = covApply data dimn v;
          proj1 = dotProduct result pc1;
          result = map (\<lambda>i. jsub (elemAt result i) (jmul proj1 (elemAt pc1 i))) [0..<dimn]
      in renormalize result v)"

definition powerIterationOrthogonal ::
  "(nat \<Rightarrow> real) \<Rightarrow> num list list \<Rightarrow> nat \<Rightarrow> num list \<Rightarrow> num list" where
  "powerIterationOrthogonal rand data dimn pc1 =
     (let v = randomVector rand dimn;
          v = removeComponent pc1 v;
          v = normalize v
      in rounds 50 (orthStep data dimn pc1) v)"

text \<open>The mean loop: every vector adds \<open>v[i] / n\<close> to \<open>mean[i]\<close>, for \<open>i < dim\<close>.\<close>

definition addToMean :: "nat \<Rightarrow> nat \<Rightarrow> num list \<Rightarrow> num list \<Rightarrow> num list" where
  "addToMean dimn n mean v =
     map (\<lambda>i. jadd (elemAt mean i) (jdiv (elemAt v i) (Fin (real n)))) [0..<dimn]"

definition meanOf :: "nat \<Rightarrow> num list list \<Rightarrow> num list" where
  "meanOf dimn allVectors =
     foldl (addToMean dimn (length allVectors)) (replicate dimn (Fin 0)) allVectors"

definition center :: "num list \<Rightarrow> num list \<Rightarrow> num list" where
  "center mean v = map (\<lambda>(i, x). jsub x (elemAt mean i)) (enumerate 0 v)"

text \<open>
  The working set, the centred rows and the two axes of \<open>projectTo2D\<close>, for a
  non-empty batch. The second axis draws after the first, so its draws are those from
  index \<open>dim\<close> on.
\<close>

definition workingSet :: "num list list \<Rightarrow> num list option \<Rightarrow> num list list" where
  "workingSet vectors queryVector =
     (case queryVector of None \<Rightarrow> vectors | Some q \<Rightarrow> vectors @ [q])"

definition centered :: "num list list \<Rightarrow> num list list" where
  "centered allVectors =
     (case allVectors of
        [] \<Rightarrow> []
      | v0 # _ \<Rightarrow> map (center (meanOf (length v0) allVectors)) allVectors)"

definition axes :: "(nat \<Rightarrow> real) \<Rightarrow> num list list \<Rightarrow> num list \<times> num list" where
  "axes rand allVectors =
     (case allVectors of
        [] \<Rightarrow> ([], [])
      | v0 # _ \<Rightarrow>
          (let dimn = length v0;
               pc1 = powerIteration rand (centered allVectors) dimn;
               pc2 = powerIterationOrthogonal (\<lambda>i. rand (dimn + i)) (centered allVectors) dimn pc1
           in (pc1, pc2)))"

text \<open>The projection of one centred row onto the two axes.\<close>

definition project :: "num list \<times> num list \<Rightarrow> num list \<Rightarrow> num \<times> num" where
  "project pcs v = (dotProduct v (fst pcs), dotProduct v (snd pcs))"

text \<open>
  \<open>projectTo2D\<close>: the pair is \<open>(projected, queryProjected)\<close>. Any array is truthy, so
  \<open>queryVector ? ... : ...\<close> asks whether the argument is given.
\<close>

definition projectTo2D ::
  "(nat \<Rightarrow> real) \<Rightarrow> num list list \<Rightarrow> num list option \<Rightarrow> (num \<times> num) list \<times> (num \<times> num) option" where
  "projectTo2D rand vectors queryVector =
     (if vectors = [] then ([], None)
      else
        (let allVectors = workingSet vectors queryVector;
             projected = map (project (axes rand allVectors)) (centered allVectors)
         in case queryVector of
              None \<Rightarrow> (projected, None)
            | Some _ \<Rightarrow> (butlast projected, Some (last projected))))"

section \<open>View transform\<close>

text \<open>
  The view layer of \<open>VectorVisualization\<close> works on projected coordinates, viewport
  sizes, zoom and pan. In \<open>transformPad\<close> and in the handlers they are real numbers
  and the arithmetic is exact; \<open>transformFl\<close> below is the same closure with the
  rounding of the IEEE doubles of the source.

  \<open>const rangeX = maxX - minX || 1\<close>: a zero range is replaced by 1.
\<close>

definition rangeOf :: "real \<Rightarrow> real \<Rightarrow> real" where
  "rangeOf lo hi = (if hi - lo = 0 then 1 else hi - lo)"

text \<open>
  The closure \<open>transform\<close> of the draw effect, with the variables it captures as
  arguments: the lower bounds and ranges of the data, the viewport size, zoom and pan.
  The padding is the local constant 40 of the source; \<open>transformPad\<close> has it as an
  argument.
\<close>

definition transformPad ::
  "real \<Rightarrow> real \<Rightarrow> real \<Rightarrow> real \<Rightarrow> real \<Rightarrow> real \<Rightarrow> real \<Rightarrow> real \<Rightarrow> real \<times> real \<Rightarrow> real \<Rightarrow> real \<Rightarrow> real \<times> real" where
  "transformPad padding minX rangeX minY rangeY w h z pn px py =
     (let tx = ((px - minX) / rangeX) * (w - 2 * padding) + padding;
          ty = h - (((py - minY) / rangeY) * (h - 2 * padding) + padding);
          cx = w / 2;
          cy = h / 2;
          zoomedX = (tx - cx) * z + cx + fst pn;
          zoomedY = (ty - cy) * z + cy + snd pn
      in (zoomedX, zoomedY))"

definition transform ::
  "real \<Rightarrow> real \<Rightarrow> real \<Rightarrow> real \<Rightarrow> real \<Rightarrow> real \<Rightarrow> real \<Rightarrow> real \<times> real \<Rightarrow> real \<Rightarrow> real \<Rightarrow> real \<times> real" where
  "transform = transformPad 40"

text \<open>
  IEEE doubles. Where a property depends on the rounding of the source's arithmetic,
  the numbers are the reals that the doubles denote and every operation is followed
  by \<open>fl\<close>: rounding to the nearest number with a significand of 53 bits, ties to
  the even significand, as binary64 does. The exponent range is unbounded: overflow to
  \<open>Infinity\<close> and the subnormal range are not modelled, so \<open>fl\<close> gives the binary64
  result where that result is a normal number.
\<close>

definition roundEven :: "real \<Rightarrow> int" where
  "roundEven y =
     (let f = \<lfloor>y\<rfloor>
      in if y - of_int f < 1 / 2 then f
         else if 1 / 2 < y - of_int f then f + 1
         else if even f then f else f + 1)"

definition fl :: "real \<Rightarrow> real" where
  "fl x =
     (if x = 0 then 0
      else (let q = 2 powr (of_int \<lfloor>log 2 \<bar>x\<bar>\<rfloor> - 52)
            in q * of_int (roundEven (x / q))))"

text \<open>
  \<open>maxX - minX || 1\<close> and the closure \<open>transform\<close> with the rounding of every
  operation of the source, in its order of evaluation. The padding is the constant 40.
\<close>

definition rangeOfFl :: "real \<Rightarrow> real \<Rightarrow> real" where
  "rangeOfFl lo hi = (let d = fl (hi - lo) in if d = 0 then 1 else d)"

definition transformFl ::
  "real \<Rightarrow> real \<Rightarrow> real \<Rightarrow> real \<Rightarrow> real \<Rightarrow> real \<Rightarrow> real \<Rightarrow> real \<times> real \<Rightarrow> real \<Rightarrow> real \<Rightarrow> real \<times> real" where
  "transformFl minX rangeX minY rangeY w h z pn px py =
     (let padding = 40;
          tx = fl (fl (fl (fl (px - minX) / rangeX) * fl (w - fl (2 * padding))) + padding);
          ty = fl (h - fl (fl (fl (fl (py - minY) / rangeY) * fl (h - fl (2 * padding))) + padding));
          cx = fl (w / 2);
          cy = fl (h / 2);
          zoomedX = fl (fl (fl (fl (tx - cx) * z) + cx) + fst pn);
          zoomedY = fl (fl (fl (fl (ty - cy) * z) + cy) + snd pn)
      in (zoomedX, zoomedY))"

section \<open>Interaction state\<close>

text \<open>The interface \<open>Point2D\<close>; the metadata is kept abstract.\<close>

record 'm Point2D =
  pt_x :: real
  pt_y :: real
  pt_id :: int
  pt_metadata :: "'m option"
  isSearchResult :: bool
  score :: "real option"
  originalVector :: "real list"

text \<open>The \<open>useState\<close> cells of the component that the handlers read and write.\<close>

record 'm vstate =
  zoom :: real
  pan :: "real \<times> real"
  isDragging :: bool
  dragStart :: "real \<times> real"
  hoveredPoint :: "'m Point2D option"
  projectedPoints :: "'m Point2D list"

definition initial :: "'m Point2D list \<Rightarrow> 'm vstate" where
  "initial ps = \<lparr> zoom = 1, pan = (0, 0), isDragging = False, dragStart = (0, 0),
                  hoveredPoint = None, projectedPoints = ps \<rparr>"

text \<open>Zoom handlers: \<open>handleWheel\<close> takes the event's \<open>deltaY\<close>.\<close>

definition handleWheel :: "real \<Rightarrow> 'm vstate \<Rightarrow> 'm vstate" where
  "handleWheel deltaY s =
     (let delta = (if deltaY > 0 then 9 / 10 else 11 / 10)
      in s\<lparr> zoom := max (2 / 10) (min 5 (zoom s * delta)) \<rparr>)"

definition handleZoomIn :: "'m vstate \<Rightarrow> 'm vstate" where
  "handleZoomIn s = s\<lparr> zoom := min (zoom s * (12 / 10)) 5 \<rparr>"

definition handleZoomOut :: "'m vstate \<Rightarrow> 'm vstate" where
  "handleZoomOut s = s\<lparr> zoom := max (zoom s / (12 / 10)) (2 / 10) \<rparr>"

definition handleReset :: "'m vstate \<Rightarrow> 'm vstate" where
  "handleReset s = s\<lparr> zoom := 1, pan := (0, 0) \<rparr>"

definition handleMouseDown :: "real \<times> real \<Rightarrow> 'm vstate \<Rightarrow> 'm vstate" where
  "handleMouseDown client s =
     s\<lparr> isDragging := True,
        dragStart := (fst client - fst (pan s), snd client - snd (pan s)) \<rparr>"

definition handleMouseUp :: "'m vstate \<Rightarrow> 'm vstate" where
  "handleMouseUp s = s\<lparr> isDragging := False \<rparr>"

text \<open>
  The hover scan of \<open>handleMouseMove\<close>. The bounds are taken over the projected
  points alone. The loops start from \<open>Infinity\<close> and \<open>-Infinity\<close>, and
  \<open>Math.min(Infinity, a)\<close> is \<open>a\<close>: on a non-empty list they fold \<open>min\<close> and
  \<open>max\<close> from the first element.
\<close>

definition lowest :: "real \<Rightarrow> real list \<Rightarrow> real" where
  "lowest a as = foldl min a as"

definition highest :: "real \<Rightarrow> real list \<Rightarrow> real" where
  "highest a as = foldl max a as"

definition deviceDist ::
  "real \<Rightarrow> real \<Rightarrow> real \<Rightarrow> real \<Rightarrow> real \<Rightarrow> real \<Rightarrow> real \<Rightarrow> real \<times> real \<Rightarrow> real \<times> real \<Rightarrow> 'm Point2D \<Rightarrow> real" where
  "deviceDist minX rangeX minY rangeY w h z pn mouse point =
     (let (zoomedX, zoomedY) = transform minX rangeX minY rangeY w h z pn (pt_x point) (pt_y point)
      in sqrt ((fst mouse - zoomedX)\<^sup>2 + (snd mouse - zoomedY)\<^sup>2))"

text \<open>One round of the loop over the points: the pair is \<open>(closest, closestDist)\<close>.\<close>

definition hoverStep ::
  "('m Point2D \<Rightarrow> real) \<Rightarrow> 'm Point2D option \<times> real \<Rightarrow> 'm Point2D \<Rightarrow> 'm Point2D option \<times> real" where
  "hoverStep dst acc point =
     (if dst point < snd acc then (Some point, dst point) else acc)"

text \<open>The distance that the scan computes for each point of a non-empty list.\<close>

definition hoverDist ::
  "real \<times> real \<Rightarrow> real \<Rightarrow> real \<Rightarrow> real \<Rightarrow> real \<times> real \<Rightarrow> 'm Point2D list \<Rightarrow> 'm Point2D \<Rightarrow> real" where
  "hoverDist mouse w h z pn ps =
     (case ps of
        [] \<Rightarrow> (\<lambda>_. 0)
      | p # rest \<Rightarrow>
          (let minX = lowest (pt_x p) (map pt_x rest);
               maxX = highest (pt_x p) (map pt_x rest);
               minY = lowest (pt_y p) (map pt_y rest);
               maxY = highest (pt_y p) (map pt_y rest);
               rangeX = rangeOf minX maxX;
               rangeY = rangeOf minY maxY
           in deviceDist minX rangeX minY rangeY w h z pn mouse))"

text \<open>
  The scan itself: \<open>closest\<close> starts as \<open>null\<close> and \<open>closestDist\<close> as \<open>20 * zoom\<close>;
  the result is the final \<open>closest\<close>. On the empty list the loop body never runs.
\<close>

definition hitTest ::
  "real \<times> real \<Rightarrow> real \<Rightarrow> real \<Rightarrow> real \<Rightarrow> real \<times> real \<Rightarrow> 'm Point2D list \<Rightarrow> 'm Point2D option" where
  "hitTest mouse w h z pn ps =
     fst (foldl (hoverStep (hoverDist mouse w h z pn ps)) (None, 20 * z) ps)"

text \<open>
  \<open>handleMouseMove\<close>. The event carries \<open>clientX\<close> and \<open>clientY\<close>; \<open>rect\<close> is the
  bounding rectangle \<open>(left, top, width, height)\<close> of the canvas, \<open>None\<close> when the
  canvas reference is empty. Each \<open>return\<close> of the source is a branch.
\<close>

definition handleMouseMove ::
  "real \<times> real \<Rightarrow> (real \<times> real \<times> real \<times> real) option \<Rightarrow> 'm vstate \<Rightarrow> 'm vstate" where
  "handleMouseMove client rect s =
     (case rect of
        None \<Rightarrow> s
      | Some (rleft, rtop, width, height) \<Rightarrow>
          (let mouseX = fst client - rleft;
               mouseY = snd client - rtop
           in if isDragging s
              then s\<lparr> pan := (fst client - fst (dragStart s), snd client - snd (dragStart s)) \<rparr>
              else if projectedPoints s = [] then s
              else s\<lparr> hoveredPoint :=
                        hitTest (mouseX, mouseY) width height (zoom s) (pan s) (projectedPoints s) \<rparr>))"

text \<open>
  \<open>handleClick\<close>. The interface \<open>VectorDocument\<close>; \<open>callback\<close> says whether
  \<open>onVectorClick\<close> is given. The result is the document the callback is called
  with, \<open>None\<close> when it is not called. The handler writes no state.
\<close>

record 'm VectorDocument =
  doc_id :: int
  doc_vector :: "real list"
  doc_metadata :: "'m option"
  created_at :: int

definition handleClick ::
  "bool \<Rightarrow> 'm VectorDocument list \<Rightarrow> 'm vstate \<Rightarrow> 'm VectorDocument option" where
  "handleClick callback vectors s =
     (case hoveredPoint s of
        None \<Rightarrow> None
      | Some hp \<Rightarrow>
          if callback then find (\<lambda>v. doc_id v = pt_id hp) vectors else None)"

text \<open>The events of the canvas and of the three buttons, and the run of a sequence of them.\<close>

datatype event =
    MouseDown "real \<times> real"
  | MouseMove "real \<times> real" "(real \<times> real \<times> real \<times> real) option"
  | MouseUp
  | MouseLeave
  | Click
  | Wheel real
  | ZoomIn
  | ZoomOut
  | Reset

fun step :: "'m vstate \<Rightarrow> event \<Rightarrow> 'm vstate" where
  "step s (MouseDown client) = handleMouseDown client s"
| "step s (MouseMove client rect) = handleMouseMove client rect s"
| "step s MouseUp = handleMouseUp s"
| "step s MouseLeave = handleMouseUp s"
| "step s Click = s"
| "step s (Wheel deltaY) = handleWheel deltaY s"
| "step s ZoomIn = handleZoomIn s"
| "step s ZoomOut = handleZoomOut s"
| "step s Reset = handleReset s"

definition run :: "'m vstate \<Rightarrow> event list \<Rightarrow> 'm vstate" where
  "run s evs = foldl step s evs"


text \<open>
  The bounds of the draw effect over a non-empty point list: the projected points and,
  when there is one, the query point. The result is \<open>(minX, rangeX, minY, rangeY)\<close>.
\<close>

definition drawBounds ::
  "'m Point2D \<Rightarrow> 'm Point2D list \<Rightarrow> (real \<times> real) option \<Rightarrow> real \<times> real \<times> real \<times> real" where
  "drawBounds p rest queryPoint =
     (let qx = (case queryPoint of None \<Rightarrow> [] | Some q \<Rightarrow> [fst q]);
          qy = (case queryPoint of None \<Rightarrow> [] | Some q \<Rightarrow> [snd q]);
          minX = lowest (pt_x p) (map pt_x rest @ qx);
          maxX = highest (pt_x p) (map pt_x rest @ qx);
          minY = lowest (pt_y p) (map pt_y rest @ qy);
          maxY = highest (pt_y p) (map pt_y rest @ qy)
      in (minX, rangeOf minX maxX, minY, rangeOf minY maxY))"

text \<open>
  Where the draw effect draws a point: \<open>transform(point.x, point.y)\<close> with the bounds
  of the draw effect, for a non-empty point list.
\<close>

definition drawPosition ::
  "real \<Rightarrow> real \<Rightarrow> (real \<times> real) option \<Rightarrow> 'm vstate \<Rightarrow> 'm Point2D \<Rightarrow> (real \<times> real) option" where
  "drawPosition width height queryPoint s point =
     (case projectedPoints s of
        [] \<Rightarrow> None
      | p # rest \<Rightarrow>
          (let (minX, rangeX, minY, rangeY) = drawBounds p rest queryPoint
           in Some (transform minX rangeX minY rangeY width height (zoom s) (pan s)
                      (pt_x point) (pt_y point))))"




text \<open>Three points used as a concrete input: they span the unit square of data space.\<close>

definition samplePoint :: "real \<Rightarrow> real \<Rightarrow> int \<Rightarrow> unit Point2D" where
  "samplePoint a b i =
     \<lparr> pt_x = a, pt_y = b, pt_id = i, pt_metadata = None, isSearchResult = False,
       score = None, originalVector = [] \<rparr>"

definition samplePoints :: "unit Point2D list" where
  "samplePoints = [samplePoint 0 0 1, samplePoint 1 0 2, samplePoint 0 1 3]"

definition sampleDoc :: "int \<Rightarrow> int \<Rightarrow> unit VectorDocument" where
  "sampleDoc i t = \<lparr> doc_id = i, doc_vector = [], doc_metadata = None, created_at = t \<rparr>"

section \<open>Properties of the projection engine\<close>

subsection \<open>Zero norms\<close>

text \<open>
  The dot product of finite vectors is the finite sum of the products, and the norm of
  a finite vector is zero only if every component is zero: an unguarded normalisation
  that meets a zero norm divides zero by zero.
\<close>

lemma dot_finite_aux:
  "n + length xs \<le> length ys \<Longrightarrow>
   foldl (\<lambda>sum (i, x). jadd sum (jmul x (elemAt (map Fin ys) i))) (Fin acc)
     (enumerate n (map Fin xs))
   = Fin (acc + (\<Sum>k<length xs. xs ! k * ys ! (n + k)))"
proof (induction xs arbitrary: n acc)
  case Nil
  then show ?case by simp
next
  case (Cons x xs)
  from Cons.prems have n: "n < length ys" and s: "Suc n + length xs \<le> length ys"
    by simp_all
  show ?case
    using Cons.IH [OF s, of "acc + x * ys ! n"] n
    by (simp add: elemAt_def sum.lessThan_Suc_shift add.assoc del: sum.lessThan_Suc)
qed

lemma dotProduct_finite:
  "length xs \<le> length ys \<Longrightarrow>
   dotProduct (map Fin xs) (map Fin ys) = Fin (\<Sum>k<length xs. xs ! k * ys ! k)"
  unfolding dotProduct_def using dot_finite_aux [of 0 xs ys 0] by simp

lemma zero_norm_zero_vector:
  assumes "jsqrt (dotProduct (map Fin xs) (map Fin xs)) = Fin 0"
  shows "\<forall>x \<in> set xs. x = 0"
proof -
  have nn: "0 \<le> (\<Sum>k<length xs. xs ! k * xs ! k)"
    by (intro sum_nonneg) simp
  from assms nn have "(\<Sum>k<length xs. xs ! k * xs ! k) = 0"
    by (simp add: dotProduct_finite not_less [symmetric] split: if_splits)
  then have "\<forall>k<length xs. xs ! k * xs ! k = 0"
    by (subst (asm) sum_nonneg_eq_0_iff) auto
  then show ?thesis by (auto simp: in_set_conv_nth)
qed

subsection \<open>Shape of the result\<close>

lemma centered_map:
  "vs \<noteq> [] \<Longrightarrow> centered vs = map (center (meanOf (length (hd vs)) vs)) vs"
  by (cases vs) (simp_all add: centered_def)

text \<open>
  C3. On the empty batch \<open>projectTo2D\<close> returns no points and no query point. On a
  non-empty batch the points are the projections of the input vectors, one for each
  and in the input order, so there are as many points as vectors; the projection of a
  supplied query vector is returned apart, as the query point, and is not one of the
  points. Mean and axes are those of the working set, which holds the query vector.
\<close>

theorem projectTo2D_points:
  "projectTo2D rand [] q = ([], None)
   \<and> (vectors \<noteq> [] \<longrightarrow>
        fst (projectTo2D rand vectors q) =
          map (\<lambda>v. project (axes rand (workingSet vectors q))
                      (center (meanOf (length (hd vectors)) (workingSet vectors q)) v)) vectors
      \<and> snd (projectTo2D rand vectors q) =
          map_option (\<lambda>qv. project (axes rand (workingSet vectors q))
                      (center (meanOf (length (hd vectors)) (workingSet vectors q)) qv)) q
      \<and> length (fst (projectTo2D rand vectors q)) = length vectors)"
proof -
  have e: "projectTo2D rand [] q = ([], None)"
    by (simp add: projectTo2D_def)
  have n: "fst (projectTo2D rand vectors q) =
          map (\<lambda>v. project (axes rand (workingSet vectors q))
                      (center (meanOf (length (hd vectors)) (workingSet vectors q)) v)) vectors
      \<and> snd (projectTo2D rand vectors q) =
          map_option (\<lambda>qv. project (axes rand (workingSet vectors q))
                      (center (meanOf (length (hd vectors)) (workingSet vectors q)) qv)) q"
    if ne: "vectors \<noteq> []"
  proof (cases q)
    case None
    with ne show ?thesis
      by (simp add: projectTo2D_def Let_def workingSet_def centered_map)
  next
    case (Some qv)
    from ne have h: "hd (vectors @ [qv]) = hd vectors" by simp
    have c: "centered (vectors @ [qv]) =
             map (center (meanOf (length (hd vectors)) (vectors @ [qv]))) vectors
             @ [center (meanOf (length (hd vectors)) (vectors @ [qv])) qv]"
      using centered_map [of "vectors @ [qv]"] h by simp
    from ne Some show ?thesis
      by (simp add: projectTo2D_def Let_def workingSet_def c)
  qed
  from n have "length (fst (projectTo2D rand vectors q)) = length vectors" if "vectors \<noteq> []"
    using that by simp
  with e n show ?thesis by blast
qed

theorem projectTo2D_points_witness:
  "[[Fin 1, Fin 2], [Fin 3, Fin 5]] \<noteq> []
   \<and> length (fst (projectTo2D (\<lambda>_. 3 / 4) [[Fin 1, Fin 2], [Fin 3, Fin 5]] (Some [Fin 0, Fin 1]))) = 2
   \<and> snd (projectTo2D (\<lambda>_. 3 / 4) [[Fin 1, Fin 2], [Fin 3, Fin 5]] (Some [Fin 0, Fin 1])) \<noteq> None"
  using projectTo2D_points [of "\<lambda>_. 3 / 4" "Some [Fin 0, Fin 1]" "[[Fin 1, Fin 2], [Fin 3, Fin 5]]"]
  by simp

subsection \<open>Vectors of dimension one\<close>

text \<open>
  With one dimension the removal of the component along the first axis leaves the
  zero vector, whose norm is zero: the unguarded normalisation that follows divides
  zero by zero.
\<close>

lemma rounds_fixed: "f v = v \<Longrightarrow> rounds k f v = v"
  by (induction k) simp_all

lemma upt_one: "[0..<Suc 0] = [0]"
  by simp

lemma dotProduct_single: "dotProduct [x] b = jadd (Fin 0) (jmul x (elemAt b 0))"
  by (simp add: dotProduct_def)

lemma jadd_NaN [simp]: "jadd NaN y = NaN" "jadd x NaN = NaN"
  by (cases x; simp)+

lemma jmul_NaN [simp]: "jmul NaN y = NaN" "jmul x NaN = NaN"
  by (cases x; simp)+

lemma jsub_NaN [simp]: "jsub NaN y = NaN" "jsub x NaN = NaN"
  by (cases x; simp)+

lemma jdiv_NaN [simp]: "jdiv NaN y = NaN" "jdiv x NaN = NaN"
  by (cases x; simp)+

lemma jgt_NaN [simp]: "jgt NaN y = False" "jgt x NaN = False"
  by (cases x; simp)+

lemma normalize_zero1: "normalize [Fin 0] = [NaN]"
  by (simp add: normalize_def dotProduct_single elemAt_def)

lemma foldl_const_NaN: "foldl (\<lambda>sum (i, x). NaN) NaN xs = NaN"
  by (induction xs) auto

lemma elemAt_NaN1: "elemAt [NaN] i = NaN"
  by (simp add: elemAt_def)

lemma dotProduct_NaN1: "row \<noteq> [] \<Longrightarrow> dotProduct row [NaN] = NaN"
proof -
  assume "row \<noteq> []"
  then obtain x xs where "row = x # xs" by (cases row) auto
  then show ?thesis by (simp add: dotProduct_def elemAt_NaN1 foldl_const_NaN)
qed

lemma addRow_NaN1: "addRow (Suc 0) [NaN] result row = [NaN]"
proof (cases row)
  case Nil
  then show ?thesis by (simp add: addRow_def upt_one elemAt_def)
next
  case (Cons x xs)
  then have "dotProduct row [NaN] = NaN" by (simp add: dotProduct_NaN1)
  then show ?thesis by (simp add: addRow_def upt_one)
qed

lemma foldl_addRow_NaN1: "foldl (addRow (Suc 0) [NaN]) [NaN] data = [NaN]"
  by (induction data) (simp_all add: addRow_NaN1)

lemma covApply_NaN1: "covApply data (Suc 0) [NaN] = (if data = [] then [Fin 0] else [NaN])"
  by (cases data) (simp_all add: covApply_def addRow_NaN1 foldl_addRow_NaN1)

lemma renormalize_NaN1: "renormalize [NaN] v = v"
  by (simp add: renormalize_def dotProduct_single)

lemma renormalize_zero1: "renormalize [Fin 0] v = v"
  by (simp add: renormalize_def dotProduct_single elemAt_def)

lemma powerStep_NaN1: "powerStep data (Suc 0) [NaN] = [NaN]"
  by (simp add: powerStep_def covApply_NaN1 renormalize_NaN1 renormalize_zero1)

lemma orthStep_NaN1: "orthStep data (Suc 0) [Fin p] [NaN] = [NaN]"
  by (simp add: orthStep_def covApply_NaN1 upt_one dotProduct_single elemAt_def
      renormalize_NaN1 renormalize_zero1)

lemma removeComponent_unit1:
  "p * p = 1 \<Longrightarrow> removeComponent [Fin p] [Fin r] = [Fin 0]"
  by (simp add: removeComponent_def dotProduct_single elemAt_def algebra_simps)

lemma orthogonal_unit1:
  assumes "p * p = 1"
  shows "powerIterationOrthogonal rand data (Suc 0) [Fin p] = [NaN]"
proof -
  have "randomVector rand (Suc 0) = [Fin (rand 0 - 1 / 2)]"
    by (simp add: randomVector_def upt_one)
  then show ?thesis
    using assms
    by (simp add: powerIterationOrthogonal_def removeComponent_unit1 normalize_zero1
        rounds_fixed orthStep_NaN1)
qed

lemma centered_single: "centered [[Fin a]] = [[Fin 0]]"
  by (simp add: centered_def meanOf_def addToMean_def center_def elemAt_def)

lemma normalize_single:
  "normalize [Fin r] = (if r = 0 then [NaN] else [Fin (r / \<bar>r\<bar>)])"
  by (simp add: normalize_def dotProduct_single elemAt_def not_less)

lemma normalize_NaN1: "normalize [NaN] = [NaN]"
  by (simp add: normalize_def)

lemma powerStep_zero1: "powerStep [[Fin 0]] (Suc 0) [Fin s] = [Fin s]"
  by (simp add: powerStep_def covApply_def addRow_def dotProduct_single elemAt_def
      renormalize_zero1)

lemma first_axis_single:
  "powerIteration rand [[Fin 0]] (Suc 0) =
     (if rand 0 = 1 / 2 then [NaN] else [Fin ((rand 0 - 1 / 2) / \<bar>rand 0 - 1 / 2\<bar>)])"
  by (simp add: powerIteration_def randomVector_def normalize_single rounds_fixed
      powerStep_NaN1 powerStep_zero1)

lemma orthStep_NaN_axis1: "orthStep data (Suc 0) [NaN] [NaN] = [NaN]"
  by (simp add: orthStep_def elemAt_def renormalize_NaN1)

lemma orthogonal_NaN_axis1: "powerIterationOrthogonal rand data (Suc 0) [NaN] = [NaN]"
  by (simp add: powerIterationOrthogonal_def randomVector_def removeComponent_def
      elemAt_def normalize_NaN1 rounds_fixed orthStep_NaN_axis1)

lemma sgn_square: "r \<noteq> 0 \<Longrightarrow> (r / \<bar>r\<bar>) * (r / \<bar>r\<bar>) = (1::real)"
  by (simp add: field_simps)

text \<open>
  C7. The normalisations inside the fifty rounds are guarded by \<open>norm > 1e-10\<close>, the
  two before the rounds are not. For data of dimension one and a unit first axis, the
  second power iteration divides by the zero norm for every draw and every batch, and
  the axis it returns is \<open>[NaN]\<close>; the first power iteration does so when its draw
  is 0.5.
\<close>

theorem second_axis_NaN:
  "powerIterationOrthogonal rand data 1 [Fin 1] = [NaN]
   \<and> powerIterationOrthogonal rand data 1 [Fin (- 1)] = [NaN]
   \<and> powerIteration (\<lambda>_. 1 / 2) data 1 = [NaN]"
proof -
  have "powerIteration (\<lambda>_. 1 / 2) data 1 = [NaN]"
    by (simp add: powerIteration_def randomVector_def upt_one normalize_zero1
        rounds_fixed powerStep_NaN1)
  then show ?thesis by (simp add: orthogonal_unit1)
qed

text \<open>
  C2. A batch of one vector of dimension one is not projected to \<open>(0, 0)\<close>: for every
  draw and every value of the vector, the second coordinate of its projection is
  \<open>NaN\<close>, and the first one is \<open>NaN\<close> too when the first draw is 0.5. The row
  is centred to zero; the \<open>NaN\<close> comes from the axis, through the product
  \<open>0 * NaN\<close>.
\<close>

theorem single_vector_projection_NaN:
  "projectTo2D rand [[Fin a]] None = ([(if rand 0 = 1 / 2 then NaN else Fin 0, NaN)], None)"
proof (cases "rand 0 = 1 / 2")
  case True
  then have "axes rand [[Fin a]] = ([NaN], [NaN])"
    by (simp add: axes_def Let_def centered_single first_axis_single orthogonal_NaN_axis1)
  with True show ?thesis
    by (simp add: projectTo2D_def Let_def workingSet_def centered_single project_def
        dotProduct_single elemAt_def)
next
  case False
  define s where "s = (rand 0 - 1 / 2) / \<bar>rand 0 - 1 / 2\<bar>"
  from False have "s * s = 1" unfolding s_def by (intro sgn_square) simp
  then have "powerIterationOrthogonal (\<lambda>i. rand (Suc 0 + i)) [[Fin 0]] (Suc 0) [Fin s] = [NaN]"
    by (rule orthogonal_unit1)
  with False have "axes rand [[Fin a]] = ([Fin s], [NaN])"
    by (simp add: axes_def Let_def centered_single first_axis_single s_def)
  with False show ?thesis
    by (simp add: projectTo2D_def Let_def workingSet_def centered_single project_def
        dotProduct_single elemAt_def)
qed

subsection \<open>Identical vectors with finite axes\<close>

text \<open>
  Centring a batch of identical vectors gives all-zero rows, on which the guarded
  rounds leave the axes as the start normalisations made them. When both start
  normalisations return finite vectors, every point and the query point are
  \<open>(0, 0)\<close>, in every dimension.
\<close>

lemma elemAt_map_Fin: "i < length ys \<Longrightarrow> elemAt (map Fin ys) i = Fin (ys ! i)"
  by (simp add: elemAt_def)

lemma elemAt_zeros: "i < d \<Longrightarrow> elemAt (replicate d (Fin 0)) i = Fin 0"
  by (simp add: elemAt_def)

lemma dot_zero_row_aux:
  "n + k \<le> length ys \<Longrightarrow>
   foldl (\<lambda>sum (i, x). jadd sum (jmul x (elemAt (map Fin ys) i))) (Fin 0)
     (enumerate n (replicate k (Fin 0))) = Fin 0"
  by (induction k arbitrary: n) (simp_all add: elemAt_map_Fin)

lemma dotProduct_zero_row:
  "d \<le> length ys \<Longrightarrow> dotProduct (replicate d (Fin 0)) (map Fin ys) = Fin 0"
  unfolding dotProduct_def using dot_zero_row_aux [of 0 d ys] by simp

lemma map_const_upt: "map (\<lambda>i. c) [0..<d] = replicate d c"
  by (induction d) (simp_all add: replicate_append_same)

lemma addRow_zero:
  "length ys = d \<Longrightarrow>
   addRow d (map Fin ys) (replicate d (Fin 0)) (replicate d (Fin 0)) = replicate d (Fin 0)"
proof -
  assume l: "length ys = d"
  have "map (\<lambda>i. jadd (elemAt (replicate d (Fin 0)) i)
                 (jmul (elemAt (replicate d (Fin 0)) i) (Fin 0))) [0..<d]
        = map (\<lambda>i. Fin 0) [0..<d]"
    by (rule map_cong) (simp_all add: elemAt_zeros)
  with l show ?thesis
    by (simp add: addRow_def dotProduct_zero_row map_const_upt)
qed

lemma covApply_zero:
  "length ys = d \<Longrightarrow>
   covApply (replicate m (replicate d (Fin 0))) d (map Fin ys) = replicate d (Fin 0)"
proof -
  assume l: "length ys = d"
  have "foldl (addRow d (map Fin ys)) (replicate d (Fin 0)) (replicate m (replicate d (Fin 0)))
        = replicate d (Fin 0)"
    by (induction m) (simp_all add: addRow_zero [OF l])
  then show ?thesis by (simp add: covApply_def)
qed

lemma renormalize_zeros: "renormalize (replicate d (Fin 0)) v = v"
proof -
  have "dotProduct (replicate d (Fin 0)) (replicate d (Fin 0)) = Fin 0"
    using dotProduct_zero_row [of d "replicate d 0"] by simp
  then show ?thesis by (simp add: renormalize_def)
qed

lemma powerStep_zero:
  "length ys = d \<Longrightarrow> powerStep (replicate m (replicate d (Fin 0))) d (map Fin ys) = map Fin ys"
  by (simp add: powerStep_def covApply_zero renormalize_zeros)

lemma orthStep_zero:
  assumes "length ys = d" and "length ps = d"
  shows "orthStep (replicate m (replicate d (Fin 0))) d (map Fin ps) (map Fin ys) = map Fin ys"
proof -
  have "map (\<lambda>i. jsub (elemAt (replicate d (Fin 0)) i) (jmul (Fin 0) (elemAt (map Fin ps) i))) [0..<d]
        = map (\<lambda>i. Fin 0) [0..<d]"
    using assms(2) by (intro map_cong) (simp_all add: elemAt_zeros elemAt_map_Fin)
  with assms show ?thesis
    by (simp add: orthStep_def Let_def covApply_zero dotProduct_zero_row map_const_upt
        renormalize_zeros)
qed

text \<open>Mean and centring of identical vectors.\<close>

lemma addToMean_scaled:
  assumes "length xs = d" and "m \<noteq> 0"
  shows "addToMean d m (map (\<lambda>i. Fin (c * (xs ! i / real m))) [0..<d]) (map Fin xs)
         = map (\<lambda>i. Fin ((c + 1) * (xs ! i / real m))) [0..<d]"
  unfolding addToMean_def
  using assms by (intro map_cong) (simp_all add: elemAt_def field_simps)

lemma foldl_addToMean:
  assumes "length xs = d" and "m \<noteq> 0"
  shows "foldl (addToMean d m) (map (\<lambda>i. Fin (c * (xs ! i / real m))) [0..<d])
           (replicate k (map Fin xs))
         = map (\<lambda>i. Fin ((c + real k) * (xs ! i / real m))) [0..<d]"
proof (induction k arbitrary: c)
  case 0
  then show ?case by simp
next
  case (Suc k)
  have "foldl (addToMean d m) (map (\<lambda>i. Fin (c * (xs ! i / real m))) [0..<d])
           (replicate (Suc k) (map Fin xs))
        = foldl (addToMean d m) (map (\<lambda>i. Fin ((c + 1) * (xs ! i / real m))) [0..<d])
           (replicate k (map Fin xs))"
    by (simp only: replicate.simps foldl.simps addToMean_scaled [OF assms])
  also have "\<dots> = map (\<lambda>i. Fin ((c + 1 + real k) * (xs ! i / real m))) [0..<d]"
    by (rule Suc.IH)
  also have "c + 1 + real k = c + real (Suc k)"
    by simp
  finally show ?case .
qed

lemma meanOf_identical:
  assumes "length xs = d" and "m \<noteq> 0"
  shows "meanOf d (replicate m (map Fin xs)) = map Fin xs"
proof -
  have z: "replicate d (Fin 0) = map (\<lambda>i. Fin (0 * (xs ! i / real m))) [0..<d]"
    by (simp add: map_const_upt)
  have "meanOf d (replicate m (map Fin xs))
        = map (\<lambda>i. Fin ((0 + real m) * (xs ! i / real m))) [0..<d]"
    unfolding meanOf_def z length_replicate by (rule foldl_addToMean [OF assms])
  also have "\<dots> = map (\<lambda>i. Fin (xs ! i)) [0..<d]"
    using assms(2) by (intro map_cong) simp_all
  also have "\<dots> = map Fin xs"
    using assms(1) by (auto simp: list_eq_iff_nth_eq)
  finally show ?thesis .
qed

lemma center_self: "center (map Fin xs) (map Fin xs) = replicate (length xs) (Fin 0)"
proof -
  have "map (\<lambda>(i, x). jsub x (elemAt (map Fin xs) i)) (enumerate 0 (map Fin xs))
        = map (\<lambda>(i, x). Fin 0) (enumerate 0 (map Fin xs))"
    by (intro map_cong) (auto simp: enumerate_eq_zip in_set_zip elemAt_def)
  also have "\<dots> = replicate (length xs) (Fin 0)"
    by (simp add: enumerate_eq_zip map_replicate_const case_prod_unfold)
  finally show ?thesis by (simp add: center_def)
qed

lemma centered_identical:
  assumes "m \<noteq> 0"
  shows "centered (replicate m (map Fin xs)) = replicate m (replicate (length xs) (Fin 0))"
proof -
  from assms have ne: "replicate m (map Fin xs) \<noteq> []" by simp
  from assms have h: "hd (replicate m (map Fin xs)) = map Fin xs" by (simp add: hd_replicate)
  show ?thesis
    unfolding centered_map [OF ne] h
    using assms by (simp add: meanOf_identical [where d = "length xs"] center_self)
qed

text \<open>The axes on all-zero rows are the normalised start vectors, when these are finite.\<close>

lemma powerIteration_zero_data:
  assumes "normalize (randomVector rand d) = map Fin a1"
  shows "powerIteration rand (replicate m (replicate d (Fin 0))) d = map Fin a1"
proof -
  have "length (normalize (randomVector rand d)) = d"
    by (simp add: normalize_def randomVector_def)
  with assms have l: "length a1 = d" by simp
  show ?thesis
    by (simp add: powerIteration_def assms rounds_fixed powerStep_zero [OF l])
qed

lemma powerIterationOrthogonal_zero_data:
  assumes "normalize (removeComponent (map Fin a1) (randomVector rand d)) = map Fin a2"
    and "length a1 = d"
  shows "powerIterationOrthogonal rand (replicate m (replicate d (Fin 0))) d (map Fin a1)
         = map Fin a2"
proof -
  have "length (normalize (removeComponent (map Fin a1) (randomVector rand d))) = d"
    by (simp add: normalize_def removeComponent_def randomVector_def)
  with assms(1) have l: "length a2 = d" by simp
  show ?thesis
    by (simp add: powerIterationOrthogonal_def assms(1) rounds_fixed
        orthStep_zero [OF l assms(2)])
qed

lemma identical_vectors_origin:
  assumes n: "n \<noteq> 0"
    and q: "q = None \<or> q = Some (map Fin xs)"
    and a1: "normalize (randomVector rand (length xs)) = map Fin a1"
    and a2: "normalize (removeComponent (map Fin a1)
               (randomVector (\<lambda>i. rand (length xs + i)) (length xs))) = map Fin a2"
  shows "projectTo2D rand (replicate n (map Fin xs)) q
         = (replicate n (Fin 0, Fin 0), map_option (\<lambda>_. (Fin 0, Fin 0)) q)"
proof -
  define m where "m = (case q of None \<Rightarrow> n | Some _ \<Rightarrow> Suc n)"
  have w: "workingSet (replicate n (map Fin xs)) q = replicate m (map Fin xs)"
    using q by (auto simp: workingSet_def m_def replicate_append_same)
  have m: "m \<noteq> 0" using n by (auto simp: m_def split: option.splits)
  have "length (normalize (randomVector rand (length xs))) = length xs"
    by (simp add: normalize_def randomVector_def)
  with a1 have l1: "length a1 = length xs" by simp
  have "length (normalize (removeComponent (map Fin a1)
               (randomVector (\<lambda>i. rand (length xs + i)) (length xs)))) = length xs"
    by (simp add: normalize_def removeComponent_def randomVector_def)
  with a2 have l2: "length a2 = length xs" by simp
  have c: "centered (replicate m (map Fin xs)) = replicate m (replicate (length xs) (Fin 0))"
    by (rule centered_identical [OF m])
  from m obtain k where k: "m = Suc k" by (cases m) auto
  have ax0: "axes rand (replicate m (map Fin xs)) =
      (powerIteration rand (centered (replicate m (map Fin xs))) (length xs),
       powerIterationOrthogonal (\<lambda>i. rand (length xs + i)) (centered (replicate m (map Fin xs)))
         (length xs) (powerIteration rand (centered (replicate m (map Fin xs))) (length xs)))"
    unfolding k by (simp add: axes_def Let_def)
  have ax: "axes rand (replicate m (map Fin xs)) = (map Fin a1, map Fin a2)"
    unfolding ax0 c
    by (simp add: powerIteration_zero_data [OF a1]
        powerIterationOrthogonal_zero_data [OF a2 l1])
  have p: "project (map Fin a1, map Fin a2) (replicate (length xs) (Fin 0)) = (Fin 0, Fin 0)"
    by (simp add: project_def dotProduct_zero_row l1 l2)
  have pr: "map (project (axes rand (replicate m (map Fin xs)))) (centered (replicate m (map Fin xs)))
        = replicate m (Fin 0, Fin 0)"
    by (simp add: ax c p)
  show ?thesis
  proof (cases q)
    case None
    then have mn: "m = n" by (simp add: m_def)
    from pr n show ?thesis
      unfolding mn None by (simp add: projectTo2D_def workingSet_def Let_def)
  next
    case (Some qv)
    with q have qv: "qv = map Fin xs" by simp
    from Some have mn: "m = Suc n" by (simp add: m_def)
    have r: "map (project (axes rand (replicate n (map Fin xs) @ [map Fin xs])))
               (centered (replicate n (map Fin xs) @ [map Fin xs]))
             = replicate n (Fin 0, Fin 0) @ [(Fin 0, Fin 0)]"
      using pr unfolding mn by (simp add: replicate_append_same)
    show ?thesis
      unfolding projectTo2D_def Let_def Some qv workingSet_def option.case r
      using n by simp
  qed
qed

lemma sqrt_sixteenth: "sqrt (1 / 16) = 1 / 4"
proof -
  have "sqrt ((1 / 4)\<^sup>2) = \<bar>1 / 4 :: real\<bar>" by (rule real_sqrt_abs)
  then show ?thesis by (simp add: power2_eq_square)
qed

lemma identical_vectors_origin_example:
  "projectTo2D (\<lambda>i. if i = 0 \<or> i = 3 then 3 / 4 else 1 / 2)
     (replicate 3 (map Fin [2, 5])) (Some (map Fin [2, 5]))
   = (replicate 3 (Fin 0, Fin 0), Some (Fin 0, Fin 0))"
proof -
  let ?rand = "\<lambda>i::nat. if i = 0 \<or> i = 3 then 3 / 4 else 1 / 2 :: real"
  have u: "[0..<2] = [0, Suc 0]" by (simp add: upt_rec)
  have a1: "normalize (randomVector ?rand (length [2, 5 :: real])) = map Fin [1, 0]"
    by (simp add: randomVector_def u normalize_def dotProduct_def elemAt_def sqrt_sixteenth)
  have a2: "normalize (removeComponent (map Fin [1, 0])
               (randomVector (\<lambda>i. ?rand (length [2, 5 :: real] + i)) (length [2, 5 :: real])))
            = map Fin [0, 1]"
    by (simp add: randomVector_def u normalize_def removeComponent_def dotProduct_def
        elemAt_def sqrt_sixteenth)
  have "projectTo2D ?rand (replicate 3 (map Fin [2, 5])) (Some (map Fin [2, 5]))
        = (replicate 3 (Fin 0, Fin 0), map_option (\<lambda>_. (Fin 0, Fin 0)) (Some (map Fin [2, 5])))"
    by (rule identical_vectors_origin [OF _ _ a1 a2]) simp_all
  then show ?thesis by simp
qed

section \<open>Properties of the interaction layer\<close>

subsection \<open>Zoom\<close>

lemma step_zoom_range:
  "2 / 10 \<le> zoom s \<and> zoom s \<le> 5 \<Longrightarrow> 2 / 10 \<le> zoom (step s e) \<and> zoom (step s e) \<le> 5"
  by (cases e)
     (auto simp: handleMouseDown_def handleMouseMove_def handleMouseUp_def handleWheel_def
        handleZoomIn_def handleZoomOut_def handleReset_def Let_def split: option.splits)

lemma foldl_step_zoom_range:
  "2 / 10 \<le> zoom s \<and> zoom s \<le> 5 \<Longrightarrow>
   2 / 10 \<le> zoom (foldl step s evs) \<and> zoom (foldl step s evs) \<le> 5"
proof (induction evs arbitrary: s)
  case Nil
  then show ?case by simp
next
  case (Cons e evs)
  from Cons.prems have "2 / 10 \<le> zoom (step s e) \<and> zoom (step s e) \<le> 5"
    by (rule step_zoom_range)
  then show ?case using Cons.IH by simp
qed

text \<open>
  C4. Starting from the initial state, whose zoom is 1, the zoom stays within
  \<open>[0.2, 5]\<close> after every sequence of events. A wheel event multiplies the zoom by
  0.9 when \<open>deltaY\<close> is positive and by 1.1 otherwise and clamps the result to
  \<open>[0.2, 5]\<close>; the zoom-in button multiplies by 1.2 and clamps from above, the
  zoom-out button divides by 1.2 and clamps from below, and neither leaves the range;
  the reset button sets the zoom to 1 and the pan to \<open>(0, 0)\<close>.
\<close>

theorem zoom_always_in_range:
  "2 / 10 \<le> zoom (run (initial ps) evs) \<and> zoom (run (initial ps) evs) \<le> 5
   \<and> zoom (handleWheel deltaY s) =
       max (2 / 10) (min 5 (zoom s * (if deltaY > 0 then 9 / 10 else 11 / 10)))
   \<and> zoom (handleZoomIn (run (initial ps) evs)) =
       min (zoom (run (initial ps) evs) * (12 / 10)) 5
   \<and> 2 / 10 \<le> zoom (handleZoomIn (run (initial ps) evs))
   \<and> zoom (handleZoomOut (run (initial ps) evs)) =
       max (zoom (run (initial ps) evs) / (12 / 10)) (2 / 10)
   \<and> zoom (handleZoomOut (run (initial ps) evs)) \<le> 5
   \<and> zoom (handleReset s) = 1 \<and> pan (handleReset s) = (0, 0)"
proof -
  have i: "2 / 10 \<le> zoom (initial ps) \<and> zoom (initial ps) \<le> 5"
    by (simp add: initial_def)
  have r: "2 / 10 \<le> zoom (run (initial ps) evs) \<and> zoom (run (initial ps) evs) \<le> 5"
    unfolding run_def using i by (rule foldl_step_zoom_range)
  have w: "zoom (handleWheel deltaY s) =
       max (2 / 10) (min 5 (zoom s * (if deltaY > 0 then 9 / 10 else 11 / 10)))"
    by (simp add: handleWheel_def Let_def)
  have zi: "2 / 10 \<le> zoom (handleZoomIn (run (initial ps) evs))"
    using r by (simp add: handleZoomIn_def)
  have zo: "zoom (handleZoomOut (run (initial ps) evs)) \<le> 5"
    using r by (simp add: handleZoomOut_def)
  show ?thesis using r w zi zo
    by (simp add: handleZoomIn_def handleZoomOut_def handleReset_def)
qed

subsection \<open>Hit-testing\<close>

lemma scan_result:
  "(fst (foldl (hoverStep d) (c, m) ps) = c \<and> snd (foldl (hoverStep d) (c, m) ps) = m
      \<and> (\<forall>q \<in> set ps. m \<le> d q))
   \<or> (\<exists>i<length ps. fst (foldl (hoverStep d) (c, m) ps) = Some (ps ! i)
         \<and> snd (foldl (hoverStep d) (c, m) ps) = d (ps ! i)
         \<and> d (ps ! i) < m
         \<and> (\<forall>q \<in> set ps. d (ps ! i) \<le> d q)
         \<and> (\<forall>j<i. d (ps ! i) < d (ps ! j)))"
proof (induction ps rule: rev_induct)
  case Nil
  then show ?case by simp
next
  case (snoc p ps)
  let ?r = "foldl (hoverStep d) (c, m) ps"
  show ?case
  proof (cases "d p < snd ?r")
    case True
    then have new: "foldl (hoverStep d) (c, m) (ps @ [p]) = (Some p, d p)"
      by (simp add: hoverStep_def)
    from snoc.IH True have below: "d p < m" and all: "\<forall>q \<in> set ps. d p < d q"
      by (auto simp: in_set_conv_nth)
    have "\<forall>j<length ps. d p < d (ps ! j)" using all by simp
    with new below all have
      "length ps < length (ps @ [p])
       \<and> fst (foldl (hoverStep d) (c, m) (ps @ [p])) = Some ((ps @ [p]) ! length ps)
       \<and> snd (foldl (hoverStep d) (c, m) (ps @ [p])) = d ((ps @ [p]) ! length ps)
       \<and> d ((ps @ [p]) ! length ps) < m
       \<and> (\<forall>q \<in> set (ps @ [p]). d ((ps @ [p]) ! length ps) \<le> d q)
       \<and> (\<forall>j<length ps. d ((ps @ [p]) ! length ps) < d ((ps @ [p]) ! j))"
      by (auto simp: nth_append less_imp_le)
    then show ?thesis by blast
  next
    case False
    then have same: "foldl (hoverStep d) (c, m) (ps @ [p]) = ?r"
      by (simp add: hoverStep_def)
    from snoc.IH show ?thesis
    proof
      assume a: "fst ?r = c \<and> snd ?r = m \<and> (\<forall>q \<in> set ps. m \<le> d q)"
      with False same show ?thesis by auto
    next
      assume "\<exists>i<length ps. fst ?r = Some (ps ! i) \<and> snd ?r = d (ps ! i) \<and> d (ps ! i) < m
         \<and> (\<forall>q \<in> set ps. d (ps ! i) \<le> d q) \<and> (\<forall>j<i. d (ps ! i) < d (ps ! j))"
      then obtain i where i: "i < length ps" "fst ?r = Some (ps ! i)" "snd ?r = d (ps ! i)"
        "d (ps ! i) < m" "\<forall>q \<in> set ps. d (ps ! i) \<le> d q" "\<forall>j<i. d (ps ! i) < d (ps ! j)"
        by blast
      from i False have
        "i < length (ps @ [p])
         \<and> fst (foldl (hoverStep d) (c, m) (ps @ [p])) = Some ((ps @ [p]) ! i)
         \<and> snd (foldl (hoverStep d) (c, m) (ps @ [p])) = d ((ps @ [p]) ! i)
         \<and> d ((ps @ [p]) ! i) < m
         \<and> (\<forall>q \<in> set (ps @ [p]). d ((ps @ [p]) ! i) \<le> d q)
         \<and> (\<forall>j<i. d ((ps @ [p]) ! i) < d ((ps @ [p]) ! j))"
        unfolding same by (auto simp: nth_append)
      then show ?thesis by blast
    qed
  qed
qed

lemma sqrt_less_numeral: "(sqrt a < numeral n) = (a < (numeral n)\<^sup>2)"
proof -
  have "sqrt ((numeral n)\<^sup>2) = (numeral n :: real)" by (subst real_sqrt_abs) simp
  then show ?thesis by (metis real_sqrt_less_iff)
qed

lemma hoverDist_sample:
  "hoverDist mouse 480 480 1 pn samplePoints q =
     sqrt ((fst mouse - (pt_x q * 400 + 40 + fst pn))\<^sup>2
         + (snd mouse - (440 - pt_y q * 400 + snd pn))\<^sup>2)"
  by (simp add: hoverDist_def samplePoints_def samplePoint_def lowest_def highest_def
      rangeOf_def deviceDist_def transform_def transformPad_def Let_def algebra_simps)



text \<open>
  The scan is an arg-min for the distance it computes itself: it returns no point
  exactly when every point is at that distance at least \<open>20 * zoom\<close> from the
  pointer; a point it returns is below \<open>20 * zoom\<close>, minimal among all points and
  strictly nearer than every point before it. That distance is the distance to the
  drawn position when there is no query point.
\<close>

lemma hitTest_nearest:
  "(hitTest mouse w h z pn ps = None \<longleftrightarrow>
      (\<forall>q \<in> set ps. 20 * z \<le> hoverDist mouse w h z pn ps q))
   \<and> (\<forall>p. hitTest mouse w h z pn ps = Some p \<longrightarrow>
         (\<exists>i<length ps. ps ! i = p
            \<and> hoverDist mouse w h z pn ps p < 20 * z
            \<and> (\<forall>q \<in> set ps. hoverDist mouse w h z pn ps p \<le> hoverDist mouse w h z pn ps q)
            \<and> (\<forall>j<i. hoverDist mouse w h z pn ps p < hoverDist mouse w h z pn ps (ps ! j))))
   \<and> hoverDist mouse w h z pn (p0 # rest) =
       (case drawBounds p0 rest None of
          (minX, rangeX, minY, rangeY) \<Rightarrow> deviceDist minX rangeX minY rangeY w h z pn mouse)"
proof -
  let ?d = "hoverDist mouse w h z pn ps"
  let ?r = "foldl (hoverStep ?d) (None, 20 * z) ps"
  have r: "hitTest mouse w h z pn ps = fst ?r"
    by (simp add: hitTest_def)
  from scan_result [of ?d None "20 * z" ps]
  have a: "hitTest mouse w h z pn ps = None \<longleftrightarrow> (\<forall>q \<in> set ps. 20 * z \<le> ?d q)"
    unfolding r by (auto simp: not_le [symmetric])
  have b: "\<exists>i<length ps. ps ! i = p \<and> ?d p < 20 * z
            \<and> (\<forall>q \<in> set ps. ?d p \<le> ?d q) \<and> (\<forall>j<i. ?d p < ?d (ps ! j))"
    if "hitTest mouse w h z pn ps = Some p" for p
    using scan_result [of ?d None "20 * z" ps] that unfolding r by auto
  have c: "hoverDist mouse w h z pn (p0 # rest) =
       (case drawBounds p0 rest None of
          (minX, rangeX, minY, rangeY) \<Rightarrow> deviceDist minX rangeX minY rangeY w h z pn mouse)"
    by (simp add: hoverDist_def drawBounds_def Let_def)
  from a b c show ?thesis by blast
qed

lemma hoverDist_sample4:
  "hoverDist mouse 480 480 1 pn (samplePoints @ [samplePoint (1 / 2) 0 4]) q =
     sqrt ((fst mouse - (pt_x q * 400 + 40 + fst pn))\<^sup>2
         + (snd mouse - (440 - pt_y q * 400 + snd pn))\<^sup>2)"
  by (simp add: hoverDist_def samplePoints_def samplePoint_def lowest_def highest_def
      rangeOf_def deviceDist_def transform_def transformPad_def Let_def algebra_simps)

text \<open>
  C1. With a query point the scan does not return the point nearest to the pointer in
  device space. The draw effect takes its bounds over the points and the query point,
  the scan over the points alone. For the three sample points and the query point
  \<open>(2, 2)\<close>, the second point is drawn at \<open>(240, 440)\<close>; with the pointer on it, at
  distance 0, the scan returns no point. With a fourth point \<open>(1/2, 0)\<close> the scan
  returns that point, which is drawn at \<open>(140, 440)\<close>, 100 device units from the
  pointer.
\<close>

theorem hover_ignores_query_point:
  "drawPosition 480 480 (Some (2, 2)) (initial samplePoints) (samplePoint 1 0 2) = Some (240, 440)
   \<and> hitTest (240, 440) 480 480 1 (0, 0) samplePoints = None
   \<and> hoveredPoint (handleMouseMove (240, 440) (Some (0, 0, 480, 480)) (initial samplePoints)) = None
   \<and> drawPosition 480 480 (Some (2, 2)) (initial (samplePoints @ [samplePoint (1 / 2) 0 4]))
        (samplePoint 1 0 2) = Some (240, 440)
   \<and> drawPosition 480 480 (Some (2, 2)) (initial (samplePoints @ [samplePoint (1 / 2) 0 4]))
        (samplePoint (1 / 2) 0 4) = Some (140, 440)
   \<and> hitTest (240, 440) 480 480 1 (0, 0) (samplePoints @ [samplePoint (1 / 2) 0 4])
        = Some (samplePoint (1 / 2) 0 4)"
proof -
  have a: "drawPosition 480 480 (Some (2, 2)) (initial samplePoints) (samplePoint 1 0 2)
           = Some (240, 440)"
    by (simp add: drawPosition_def initial_def samplePoints_def samplePoint_def drawBounds_def
        lowest_def highest_def rangeOf_def transform_def transformPad_def Let_def)
  have b: "hitTest (240, 440) 480 480 1 (0, 0) samplePoints = None"
    unfolding hitTest_def hoverDist_sample
    by (simp add: samplePoints_def samplePoint_def hoverStep_def sqrt_less_numeral)
  have c: "hoveredPoint (handleMouseMove (240, 440) (Some (0, 0, 480, 480)) (initial samplePoints))
           = None"
    using b by (simp add: handleMouseMove_def initial_def)
  have d: "drawPosition 480 480 (Some (2, 2)) (initial (samplePoints @ [samplePoint (1 / 2) 0 4]))
        (samplePoint 1 0 2) = Some (240, 440)"
    by (simp add: drawPosition_def initial_def samplePoints_def samplePoint_def drawBounds_def
        lowest_def highest_def rangeOf_def transform_def transformPad_def Let_def)
  have e: "drawPosition 480 480 (Some (2, 2)) (initial (samplePoints @ [samplePoint (1 / 2) 0 4]))
        (samplePoint (1 / 2) 0 4) = Some (140, 440)"
    by (simp add: drawPosition_def initial_def samplePoints_def samplePoint_def drawBounds_def
        lowest_def highest_def rangeOf_def transform_def transformPad_def Let_def)
  have f: "hitTest (240, 440) 480 480 1 (0, 0) (samplePoints @ [samplePoint (1 / 2) 0 4])
        = Some (samplePoint (1 / 2) 0 4)"
    unfolding hitTest_def hoverDist_sample4
    by (simp add: samplePoints_def samplePoint_def hoverStep_def sqrt_less_numeral)
  from a b c d e f show ?thesis by simp
qed




subsection \<open>Click\<close>

lemma find_first:
  "find P xs = Some d \<Longrightarrow> \<exists>i<length xs. xs ! i = d \<and> P d \<and> (\<forall>j<i. \<not> P (xs ! j))"
  by (auto simp: find_Some_iff)

text \<open>
  C10. A click calls the vector-click callback if and only if the callback is given,
  a hover target is set and some record of the batch has the id of the hovered point;
  the callback then receives the first such record in batch order. A click changes
  no state.
\<close>

theorem click_callback:
  "(handleClick callback vectors s \<noteq> None \<longleftrightarrow>
      callback \<and> (\<exists>hp. hoveredPoint s = Some hp \<and> (\<exists>v \<in> set vectors. doc_id v = pt_id hp)))
   \<and> (\<forall>d. handleClick callback vectors s = Some d \<longrightarrow>
        (\<exists>hp i. hoveredPoint s = Some hp \<and> i < length vectors \<and> vectors ! i = d
           \<and> doc_id d = pt_id hp \<and> (\<forall>j<i. doc_id (vectors ! j) \<noteq> pt_id hp)))
   \<and> step s Click = s"
proof -
  have a: "handleClick callback vectors s \<noteq> None \<longleftrightarrow>
      callback \<and> (\<exists>hp. hoveredPoint s = Some hp \<and> (\<exists>v \<in> set vectors. doc_id v = pt_id hp))"
  proof (cases "hoveredPoint s")
    case None
    then show ?thesis by (simp add: handleClick_def)
  next
    case (Some hp)
    have "(find (\<lambda>v. doc_id v = pt_id hp) vectors \<noteq> None) =
          (\<exists>v \<in> set vectors. doc_id v = pt_id hp)"
      by (auto simp: find_None_iff)
    with Some show ?thesis by (simp add: handleClick_def)
  qed
  have b: "\<exists>hp i. hoveredPoint s = Some hp \<and> i < length vectors \<and> vectors ! i = d
           \<and> doc_id d = pt_id hp \<and> (\<forall>j<i. doc_id (vectors ! j) \<noteq> pt_id hp)"
    if "handleClick callback vectors s = Some d" for d
  proof -
    from that obtain hp where h: "hoveredPoint s = Some hp"
      and f: "find (\<lambda>v. doc_id v = pt_id hp) vectors = Some d"
      by (auto simp: handleClick_def split: option.splits if_splits)
    from find_first [OF f] h show ?thesis by blast
  qed
  show ?thesis using a b by simp
qed

theorem click_callback_witness:
  "handleClick True [sampleDoc 1 0, sampleDoc 2 1, sampleDoc 2 2]
     ((initial samplePoints)\<lparr> hoveredPoint := Some (samplePoint 1 0 2) \<rparr>) = Some (sampleDoc 2 1)
   \<and> (\<exists>v \<in> set [sampleDoc 1 0, sampleDoc 2 1, sampleDoc 2 2].
         doc_id v = pt_id (samplePoint 1 0 2))
   \<and> handleClick True [sampleDoc 1 0, sampleDoc 2 1, sampleDoc 2 2] (initial samplePoints) = None"
proof -
  have e: "handleClick True [sampleDoc 1 0, sampleDoc 2 1, sampleDoc 2 2]
     ((initial samplePoints)\<lparr> hoveredPoint := Some (samplePoint 1 0 2) \<rparr>) = Some (sampleDoc 2 1)"
    by (simp add: handleClick_def sampleDoc_def samplePoint_def)
  have n: "hoveredPoint (initial samplePoints) = None"
    by (simp add: initial_def)
  from click_callback [of True "[sampleDoc 1 0, sampleDoc 2 1, sampleDoc 2 2]"
      "(initial samplePoints)\<lparr> hoveredPoint := Some (samplePoint 1 0 2) \<rparr>"] e
  have a: "\<exists>v \<in> set [sampleDoc 1 0, sampleDoc 2 1, sampleDoc 2 2].
         doc_id v = pt_id (samplePoint 1 0 2)"
    by simp
  from click_callback [of True "[sampleDoc 1 0, sampleDoc 2 1, sampleDoc 2 2]"
      "initial samplePoints"] n
  have b: "handleClick True [sampleDoc 1 0, sampleDoc 2 1, sampleDoc 2 2] (initial samplePoints) = None"
    by simp
  from e a b show ?thesis by simp
qed

section \<open>Properties of the render layer\<close>




section \<open>Properties of the view transform\<close>

text \<open>
  C5. Pan composes additively and independently of zoom: the device position of a data
  point under a pan offset is its device position under the zero pan plus the offset,
  component by component, for every point, bounds, viewport, zoom and pan.
\<close>

theorem transform_pan_additive:
  "transform minX rangeX minY rangeY w h z (panX, panY) px py =
     (fst (transform minX rangeX minY rangeY w h z (0, 0) px py) + panX,
      snd (transform minX rangeX minY rangeY w h z (0, 0) px py) + panY)"
  by (simp add: transform_def transformPad_def Let_def)

text \<open>
  In exact arithmetic the centre of a bounding box with nonzero ranges is mapped,
  under the zero pan, to the centre of the viewport, for every zoom and every padding.
\<close>

lemma transform_center:
  assumes "maxX \<noteq> minX" and "maxY \<noteq> minY"
  shows "transformPad padding minX (rangeOf minX maxX) minY (rangeOf minY maxY) w h z (0, 0)
           ((minX + maxX) / 2) ((minY + maxY) / 2) = (w / 2, h / 2)
       \<and> transform minX (rangeOf minX maxX) minY (rangeOf minY maxY) w h z (0, 0)
           ((minX + maxX) / 2) ((minY + maxY) / 2) = (w / 2, h / 2)"
proof -
  have hx: "((minX + maxX) / 2 - minX) / (maxX - minX) = 1 / 2"
    using assms(1) by (simp add: field_simps)
  have hy: "((minY + maxY) / 2 - minY) / (maxY - minY) = 1 / 2"
    using assms(2) by (simp add: field_simps)
  have "transformPad q minX (rangeOf minX maxX) minY (rangeOf minY maxY) w h z (0, 0)
           ((minX + maxX) / 2) ((minY + maxY) / 2) = (w / 2, h / 2)" for q
    using assms by (simp add: transformPad_def rangeOf_def Let_def hx hy field_simps)
  then show ?thesis by (simp add: transform_def)
qed

subsection \<open>The transform in double arithmetic\<close>

lemma roundEven_of_int: "roundEven (of_int n) = n"
  by (simp add: roundEven_def)

lemma roundEven_cases: "roundEven y = \<lfloor>y\<rfloor> \<or> roundEven y = \<lfloor>y\<rfloor> + 1"
  by (simp add: roundEven_def Let_def)

lemma roundEven_nonzero: "1 \<le> \<bar>y\<bar> \<Longrightarrow> roundEven y \<noteq> 0"
proof -
  assume a: "1 \<le> \<bar>y\<bar>"
  define f where "f = \<lfloor>y\<rfloor>"
  have c: "roundEven y = f \<or> roundEven y = f + 1"
    unfolding f_def by (rule roundEven_cases)
  show ?thesis
  proof (cases "0 \<le> y")
    case True
    with a have "1 \<le> f" unfolding f_def by (simp add: le_floor_iff)
    with c show ?thesis by auto
  next
    case False
    with a have y: "y \<le> - 1" by simp
    then have f: "f \<le> - 1" unfolding f_def by (simp add: floor_le_iff)
    show ?thesis
    proof (cases "f = - 1")
      case True
      then have "- 1 \<le> y" unfolding f_def by (metis of_int_floor_le of_int_1 of_int_minus)
      with y have "y = of_int (- 1)" by simp
      then show ?thesis by (simp only: roundEven_of_int)
    next
      case False
      with f have "f \<le> - 2" by simp
      with c show ?thesis by auto
    qed
  qed
qed

lemma fl_zero: "fl 0 = 0"
  by (simp add: fl_def)

lemma pow_floor_log_le: "x \<noteq> 0 \<Longrightarrow> 2 powr (of_int \<lfloor>log 2 \<bar>x\<bar>\<rfloor>) \<le> \<bar>x\<bar>"
proof -
  assume "x \<noteq> 0"
  then have p: "0 < \<bar>x\<bar>" by simp
  have "of_int \<lfloor>log 2 \<bar>x\<bar>\<rfloor> \<le> log 2 \<bar>x\<bar>" by simp
  then have "2 powr (of_int \<lfloor>log 2 \<bar>x\<bar>\<rfloor>) \<le> 2 powr (log 2 \<bar>x\<bar>)"
    by (simp only: powr_le_cancel_iff)
  with p show ?thesis by simp
qed

lemma lt_pow_floor_log: "x \<noteq> 0 \<Longrightarrow> \<bar>x\<bar> < 2 powr (of_int \<lfloor>log 2 \<bar>x\<bar>\<rfloor> + 1)"
proof -
  assume "x \<noteq> 0"
  then have p: "0 < \<bar>x\<bar>" by simp
  have "log 2 \<bar>x\<bar> < of_int \<lfloor>log 2 \<bar>x\<bar>\<rfloor> + 1" by linarith
  then have "2 powr (log 2 \<bar>x\<bar>) < 2 powr (of_int \<lfloor>log 2 \<bar>x\<bar>\<rfloor> + 1)"
    by (simp only: powr_less_cancel_iff)
  with p show ?thesis by simp
qed

lemma floor_log_unique:
  assumes "2 powr (of_int e) \<le> \<bar>x\<bar>" and "\<bar>x\<bar> < 2 powr (of_int e + 1)"
  shows "\<lfloor>log 2 \<bar>x\<bar>\<rfloor> = e"
proof -
  have p: "0 < \<bar>x\<bar>" using assms(1) by (smt (verit) powr_gt_zero)
  from assms(1) p have "of_int e \<le> log 2 \<bar>x\<bar>" by (simp add: le_log_iff)
  moreover from assms(2) p have "log 2 \<bar>x\<bar> < of_int e + 1" by (simp add: log_less_iff)
  ultimately show ?thesis by linarith
qed

lemma fl_eval:
  assumes "2 powr (of_int e) \<le> \<bar>x\<bar>" and "\<bar>x\<bar> < 2 powr (of_int e + 1)"
  shows "fl x = 2 powr (of_int e - 52) * of_int (roundEven (x / 2 powr (of_int e - 52)))"
proof -
  have "x \<noteq> 0" using assms(1) by (smt (verit) powr_gt_zero abs_zero)
  then show ?thesis by (simp add: fl_def Let_def floor_log_unique [OF assms])
qed

lemma fl_nonzero: "x \<noteq> 0 \<Longrightarrow> fl x \<noteq> 0"
proof -
  assume x: "x \<noteq> 0"
  let ?E = "\<lfloor>log 2 \<bar>x\<bar>\<rfloor>"
  let ?q = "2 powr (of_int ?E - 52) :: real"
  have q: "0 < ?q" by simp
  have "2 powr (of_int ?E) = ?q * 2 powr 52" by (simp add: powr_diff)
  with pow_floor_log_le [OF x] have "?q * 2 powr 52 \<le> \<bar>x\<bar>" by simp
  then have "2 powr 52 \<le> \<bar>x\<bar> / ?q" using q by (simp only: pos_le_divide_eq mult.commute)
  moreover have "(1::real) \<le> 2 powr 52" by simp
  moreover have "\<bar>x / ?q\<bar> = \<bar>x\<bar> / ?q" using q by (simp only: abs_divide abs_of_pos)
  ultimately have "1 \<le> \<bar>x / ?q\<bar>" by linarith
  then have "roundEven (x / ?q) \<noteq> 0" by (rule roundEven_nonzero)
  with x q show ?thesis by (simp add: fl_def Let_def)
qed

lemma fl_half: "fl (x / 2) = fl x / 2"
proof (cases "x = 0")
  case True
  then show ?thesis by (simp add: fl_def)
next
  case False
  then have p: "0 < \<bar>x\<bar>" by simp
  have "log 2 \<bar>x / 2\<bar> = log 2 \<bar>x\<bar> - 1"
    using p by (simp add: log_divide)
  then have e: "\<lfloor>log 2 \<bar>x / 2\<bar>\<rfloor> = \<lfloor>log 2 \<bar>x\<bar>\<rfloor> - 1" by simp
  have q: "2 powr (of_int (\<lfloor>log 2 \<bar>x\<bar>\<rfloor> - 1) - 52) = 2 powr (of_int \<lfloor>log 2 \<bar>x\<bar>\<rfloor> - 52) / (2::real)"
    by (simp add: powr_diff)
  from False show ?thesis
    unfolding fl_def e q by (simp add: Let_def)
qed

lemma fl_repr:
  assumes "x = of_int m * 2 powr (of_int e)" and "\<bar>m\<bar> < 2 ^ 53"
  shows "fl x = x"
proof (cases "x = 0")
  case True
  then show ?thesis by (simp add: fl_def)
next
  case False
  let ?E = "\<lfloor>log 2 \<bar>x\<bar>\<rfloor>"
  have "\<bar>x\<bar> = \<bar>of_int m\<bar> * 2 powr (of_int e)" by (simp add: assms(1) abs_mult)
  also have "\<dots> < 2 ^ 53 * 2 powr (of_int e)"
  proof -
    have "\<bar>real_of_int m\<bar> < 2 ^ 53" using assms(2) by (metis of_int_abs of_int_less_numeral_power_cancel_iff)
    then show ?thesis by simp
  qed
  also have "\<dots> = 2 powr (of_int (e + 53))" by (simp add: powr_add)
  finally have "\<bar>x\<bar> < 2 powr (of_int (e + 53))" .
  with pow_floor_log_le [OF False] have "2 powr (of_int ?E) < (2::real) powr (of_int (e + 53))"
    by (rule le_less_trans)
  then have "real_of_int ?E < of_int (e + 53)" by (simp only: powr_less_cancel_iff)
  then have "?E < e + 53" by (simp only: of_int_less_iff)
  then have k: "0 \<le> e + 52 - ?E" by simp
  define k where "k = nat (e + 52 - ?E)"
  define Q :: real where "Q = 2 powr (of_int ?E - 52)"
  have Qpos: "0 < Q" by (simp add: Q_def)
  have ek: "real_of_int e = of_int ?E - 52 + real k" using k by (simp add: k_def)
  have pe: "2 powr (real_of_int e) = Q * 2 ^ k"
    unfolding ek Q_def by (simp add: powr_add powr_realpow)
  have "x = of_int (m * 2 ^ k) * Q"
    by (simp only: assms(1) pe) simp
  then have xq: "x / Q = of_int (m * 2 ^ k)"
    using Qpos by simp
  have "fl x = Q * of_int (roundEven (x / Q))"
    using False by (simp add: fl_def Let_def Q_def)
  also have "\<dots> = Q * (x / Q)"
    unfolding xq roundEven_of_int by simp
  also have "\<dots> = x" using Qpos by simp
  finally show ?thesis .
qed

lemma fl_one_half: "fl (1 / 2) = 1 / 2"
  using fl_repr [of "1 / 2" 1 "- 1"] by simp

lemma fl_eighty: "fl 80 = 80"
  using fl_repr [of 80 5 4] by simp

lemma fl_sub_eighty:
  assumes d: "fl w = w" and lo: "40 \<le> w" and hi: "w < 2 ^ 57"
  shows "fl (w - 80) = w - 80"
proof -
  let ?E = "\<lfloor>log 2 \<bar>w\<bar>\<rfloor>"
  define Q :: real where "Q = 2 powr (of_int ?E - 52)"
  have Qpos: "0 < Q" by (simp add: Q_def)
  from lo have w0: "w \<noteq> 0" and wabs: "\<bar>w\<bar> = w" by simp_all
  define n where "n = roundEven (w / Q)"
  have wn: "w = Q * of_int n"
    using d w0 by (simp add: fl_def Let_def Q_def n_def)
  have "2 powr (of_int ?E) \<le> w" using pow_floor_log_le [OF w0] wabs by simp
  also have "w < 2 powr (of_int 57)" using hi by simp
  finally have "real_of_int ?E < of_int 57" by (simp only: powr_less_cancel_iff)
  then have E: "?E \<le> 56" by simp
  define k where "k = nat (56 - ?E)"
  have "(4::real) = of_int ?E - 52 + real k" using E by (simp add: k_def)
  then have "2 powr (4::real) = Q * 2 ^ k"
    unfolding Q_def by (simp only: powr_add powr_realpow)
  then have p: "(80::real) = Q * of_int (5 * 2 ^ k)" by simp
  from wn p have "w - 80 = Q * of_int n - Q * of_int (5 * 2 ^ k)" by linarith
  also have "\<dots> = Q * of_int (n - 5 * 2 ^ k)"
    by (simp only: of_int_diff right_diff_distrib)
  finally have eq: "w - 80 = Q * of_int (n - 5 * 2 ^ k)" .
  have r: "w - 80 = of_int (n - 5 * 2 ^ k) * 2 powr (of_int (?E - 52))"
    unfolding eq Q_def by (simp only: of_int_diff of_int_numeral mult.commute)
  have "w < 2 powr (of_int ?E + 1)" using lt_pow_floor_log [OF w0] wabs by simp
  also have "\<dots> = Q * 2 ^ 53" by (simp add: Q_def powr_add powr_diff)
  finally have "Q * of_int n < Q * 2 ^ 53" using wn by simp
  then have nlt: "real_of_int n < 2 ^ 53" using Qpos by (simp only: mult_less_cancel_left_pos)
  have "\<bar>w - 80\<bar> = Q * \<bar>real_of_int (n - 5 * 2 ^ k)\<bar>"
    using Qpos by (simp only: eq abs_mult abs_of_pos)
  moreover have "\<bar>w - 80\<bar> \<le> w" using lo by simp
  ultimately have "Q * \<bar>real_of_int (n - 5 * 2 ^ k)\<bar> \<le> Q * of_int n"
    using wn by linarith
  then have "\<bar>real_of_int (n - 5 * 2 ^ k)\<bar> \<le> of_int n"
    using Qpos by (simp only: mult_le_cancel_left_pos)
  with nlt have "\<bar>real_of_int (n - 5 * 2 ^ k)\<bar> < 2 ^ 53" by linarith
  then have m: "\<bar>n - 5 * 2 ^ k\<bar> < 2 ^ 53"
    by (metis of_int_abs of_int_less_numeral_power_cancel_iff)
  from r m show ?thesis by (rule fl_repr)
qed

lemma fl_axis:
  assumes d: "fl w = w" and lo: "40 \<le> w" and hi: "w < 2 ^ 57"
  shows "fl (fl (1 / 2 * fl (w - fl (2 * 40))) + 40) = w / 2"
proof -
  have a: "fl (2 * 40) = 80" using fl_eighty by simp
  have b: "fl (w - 80) = w - 80" by (rule fl_sub_eighty [OF assms])
  have "fl (1 / 2 * (w - 80)) = fl ((w - 80) / 2)" by simp
  also have "\<dots> = (w - 80) / 2" by (simp only: fl_half b)
  finally have c: "fl (1 / 2 * (w - 80)) = (w - 80) / 2" .
  have "(w - 80) / 2 + 40 = w / 2" by (simp add: diff_divide_distrib)
  then have e: "fl ((w - 80) / 2 + 40) = w / 2" by (simp only: fl_half d)
  show ?thesis by (simp only: a b c e)
qed

lemma fl_ratio_half:
  assumes "hi \<noteq> lo"
  shows "fl (fl ((lo + hi) / 2 - lo) / rangeOfFl lo hi) = 1 / 2"
proof -
  from assms have nz: "fl (hi - lo) \<noteq> 0" by (intro fl_nonzero) simp
  then have r: "rangeOfFl lo hi = fl (hi - lo)" by (simp add: rangeOfFl_def Let_def)
  have "(lo + hi) / 2 - lo = (hi - lo) / 2" by (simp add: field_simps)
  then have "fl ((lo + hi) / 2 - lo) = fl (hi - lo) / 2" by (simp only: fl_half)
  moreover have "fl (hi - lo) / 2 / fl (hi - lo) = 1 / 2" using nz by simp
  ultimately have "fl ((lo + hi) / 2 - lo) / rangeOfFl lo hi = 1 / 2" by (simp only: r)
  then show ?thesis by (simp only: fl_one_half)
qed

lemma powr_neg_nat: "2 powr (- real k) = 1 / (2::real) ^ k"
  by (simp add: powr_minus powr_realpow divide_inverse)

lemma fl_value_neg:
  assumes "1 / 2 ^ k \<le> \<bar>x\<bar>" and "\<bar>x\<bar> < 2 / 2 ^ k"
    and "roundEven (x * 2 ^ (k + 52)) = n"
  shows "fl x = of_int n / 2 ^ (k + 52)"
proof -
  have a: "2 powr (of_int (- int k)) \<le> \<bar>x\<bar>"
    using assms(1) by (simp add: powr_neg_nat)
  have "2 powr (- real k + 1) = 2 powr (- real k) * (2::real) powr 1"
    by (rule powr_add)
  then have "2 powr (of_int (- int k) + 1) = 2 / (2::real) ^ k"
    by (simp add: powr_neg_nat)
  with assms(2) have b: "\<bar>x\<bar> < 2 powr (of_int (- int k) + 1)" by simp
  have "real_of_int (- int k) - 52 = - real (k + 52)" by simp
  then have q: "2 powr (real_of_int (- int k) - 52) = 1 / (2::real) ^ (k + 52)"
    by (simp only: powr_neg_nat)
  show ?thesis
    using fl_eval [OF a b] assms(3) unfolding q by simp
qed

lemma fl_value_pos:
  assumes "2 ^ k \<le> \<bar>x\<bar>" and "\<bar>x\<bar> < 2 * 2 ^ k" and "k \<le> 52"
    and "roundEven (x * 2 ^ (52 - k)) = n"
  shows "fl x = of_int n / 2 ^ (52 - k)"
proof -
  have a: "2 powr (of_int (int k)) \<le> \<bar>x\<bar>"
    using assms(1) by (simp add: powr_realpow)
  have "2 powr (of_int (int k) + 1) = 2 * (2::real) ^ k"
    by (simp add: powr_add powr_realpow)
  with assms(2) have b: "\<bar>x\<bar> < 2 powr (of_int (int k) + 1)" by simp
  have "real_of_int (int k) - 52 = - real (52 - k)" using assms(3) by simp
  then have q: "2 powr (real_of_int (int k) - 52) = 1 / (2::real) ^ (52 - k)"
    by (simp only: powr_neg_nat)
  show ?thesis
    using fl_eval [OF a b] assms(4) unfolding q by simp
qed

lemma dbl_tenth: "fl (1 / 10) = 3602879701896397 / 36028797018963968"
  using fl_value_neg [of 4 "1 / 10" "7205759403792794"] by (simp add: roundEven_def)

lemma dbl_four_tenths: "fl (4 / 10) = 3602879701896397 / 9007199254740992"
  using fl_value_neg [of 2 "4 / 10" "7205759403792794"] by (simp add: roundEven_def)

lemma dbl_sum: "fl (3602879701896397 / 36028797018963968 + 3602879701896397 / 9007199254740992) = 1 / 2"
  using fl_value_neg [of 1 "3602879701896397 / 36028797018963968 + 3602879701896397 / 9007199254740992" "4503599627370496"] by (simp add: roundEven_def)

lemma dbl_mid: "fl (1 / 2 / 2) = 1 / 4"
  using fl_value_neg [of 2 "1 / 2 / 2" "4503599627370496"] by (simp add: roundEven_def)

lemma dbl_range: "fl (3602879701896397 / 9007199254740992 - 3602879701896397 / 36028797018963968) = 1351079888211149 / 4503599627370496"
  using fl_value_neg [of 2 "3602879701896397 / 9007199254740992 - 3602879701896397 / 36028797018963968" "5404319552844596"] by (simp add: roundEven_def)

lemma dbl_offset: "fl (1 / 4 - 3602879701896397 / 36028797018963968) = 5404319552844595 / 36028797018963968"
  using fl_value_neg [of 3 "1 / 4 - 3602879701896397 / 36028797018963968" "5404319552844595"] by (simp add: roundEven_def)

lemma dbl_ratio: "fl (5404319552844595 / 36028797018963968 / (1351079888211149 / 4503599627370496)) = 4503599627370495 / 9007199254740992"
  using fl_value_neg [of 2 "5404319552844595 / 36028797018963968 / (1351079888211149 / 4503599627370496)" "9007199254740990"] by (simp add: roundEven_def)

lemma dbl_padding2: "fl (2 * 40) = 80"
  using fl_value_pos [of 6 "2 * 40" "5629499534213120"] by (simp add: roundEven_def)

lemma dbl_inner: "fl (601 - 80) = 521"
  using fl_value_pos [of 9 "601 - 80" "4582764464570368"] by (simp add: roundEven_def)

lemma dbl_scaled: "fl (4503599627370495 / 9007199254740992 * 521) = 4582764464570367 / 17592186044416"
  using fl_value_pos [of 8 "4503599627370495 / 9007199254740992 * 521" "4582764464570367"] by (simp add: roundEven_def)

lemma dbl_tx: "fl (4582764464570367 / 17592186044416 + 40) = 5286451906347007 / 17592186044416"
  using fl_value_pos [of 8 "4582764464570367 / 17592186044416 + 40" "5286451906347007"] by (simp add: roundEven_def)

lemma dbl_cx: "fl (601 / 2) = 601 / 2"
  using fl_value_pos [of 8 "601 / 2" "5286451906347008"] by (simp add: roundEven_def)

lemma dbl_diff: "fl (5286451906347007 / 17592186044416 - 601 / 2) = - (1 / 17592186044416)"
  using fl_value_neg [of 44 "5286451906347007 / 17592186044416 - 601 / 2" "- 4503599627370496"] by (simp add: roundEven_def)

lemma dbl_zoom1: "fl (- (1 / 17592186044416) * 1) = - (1 / 17592186044416)"
  using fl_value_neg [of 44 "- (1 / 17592186044416) * 1" "- 4503599627370496"] by (simp add: roundEven_def)

lemma dbl_back1: "fl (- (1 / 17592186044416) + 601 / 2) = 5286451906347007 / 17592186044416"
  using fl_value_pos [of 8 "- (1 / 17592186044416) + 601 / 2" "5286451906347007"] by (simp add: roundEven_def)

lemma dbl_out1: "fl (5286451906347007 / 17592186044416 + 0) = 5286451906347007 / 17592186044416"
  using fl_value_pos [of 8 "5286451906347007 / 17592186044416 + 0" "5286451906347007"] by (simp add: roundEven_def)

lemma dbl_zoom5: "fl (- (1 / 17592186044416) * 5) = - (5 / 17592186044416)"
  using fl_value_neg [of 42 "- (1 / 17592186044416) * 5" "- 5629499534213120"] by (simp add: roundEven_def)

lemma dbl_back5: "fl (- (5 / 17592186044416) + 601 / 2) = 5286451906347003 / 17592186044416"
  using fl_value_pos [of 8 "- (5 / 17592186044416) + 601 / 2" "5286451906347003"] by (simp add: roundEven_def)

lemma dbl_out5: "fl (5286451906347003 / 17592186044416 + 0) = 5286451906347003 / 17592186044416"
  using fl_value_pos [of 8 "5286451906347003 / 17592186044416 + 0" "5286451906347003"] by (simp add: roundEven_def)

lemma dbl_rangeOf: "rangeOfFl (3602879701896397 / 36028797018963968) (3602879701896397 / 9007199254740992) = 1351079888211149 / 4503599627370496"
  by (simp only: rangeOfFl_def Let_def dbl_range) simp

text \<open>
  The centre as the doubles compute it need not be the centre: for the bounds 0.1 and
  0.4 it is \<open>(0.1 + 0.4) / 2 = 0.25\<close>, and in a viewport of width 601 the code maps it to
  300.49999999999994 at zoom 1 and to 300.4999999999997 at zoom 5, not to 300.5.
\<close>

theorem transformFl_center_counterexample:
  "fl (fl (fl (1 / 10) + fl (4 / 10)) / 2) = 1 / 4
   \<and> fst (transformFl (fl (1 / 10)) (rangeOfFl (fl (1 / 10)) (fl (4 / 10))) 0 (rangeOfFl 0 1)
          601 300 1 (0, 0) (1 / 4) (1 / 2)) = 5286451906347007 / 17592186044416
   \<and> fst (transformFl (fl (1 / 10)) (rangeOfFl (fl (1 / 10)) (fl (4 / 10))) 0 (rangeOfFl 0 1)
          601 300 5 (0, 0) (1 / 4) (1 / 2)) = 5286451906347003 / 17592186044416
   \<and> 5286451906347007 / 17592186044416 \<noteq> (601 / 2 :: real)
   \<and> 5286451906347003 / 17592186044416 \<noteq> (601 / 2 :: real)"
proof -
  have m: "fl (fl (fl (1 / 10) + fl (4 / 10)) / 2) = 1 / 4"
    by (simp only: dbl_tenth dbl_four_tenths dbl_sum dbl_mid)
  have z1: "fst (transformFl (fl (1 / 10)) (rangeOfFl (fl (1 / 10)) (fl (4 / 10))) 0 (rangeOfFl 0 1)
          601 300 1 (0, 0) (1 / 4) (1 / 2)) = 5286451906347007 / 17592186044416"
    by (simp only: transformFl_def Let_def fst_conv dbl_tenth dbl_four_tenths dbl_sum dbl_mid dbl_range dbl_offset dbl_ratio dbl_padding2 dbl_inner dbl_scaled dbl_tx dbl_cx dbl_diff dbl_zoom1 dbl_back1 dbl_out1 dbl_zoom5 dbl_back5 dbl_out5 dbl_rangeOf)
  have z5: "fst (transformFl (fl (1 / 10)) (rangeOfFl (fl (1 / 10)) (fl (4 / 10))) 0 (rangeOfFl 0 1)
          601 300 5 (0, 0) (1 / 4) (1 / 2)) = 5286451906347003 / 17592186044416"
    by (simp only: transformFl_def Let_def fst_conv dbl_tenth dbl_four_tenths dbl_sum dbl_mid dbl_range dbl_offset dbl_ratio dbl_padding2 dbl_inner dbl_scaled dbl_tx dbl_cx dbl_diff dbl_zoom1 dbl_back1 dbl_out1 dbl_zoom5 dbl_back5 dbl_out5 dbl_rangeOf)
  from m z1 z5 show ?thesis by simp
qed

text \<open>
  C6. In double arithmetic, with the padding 40 of the source: for every bounding box
  with nonzero x and y ranges, every viewport whose width and height are doubles from
  40 to below \<open>2^57\<close>, and every zoom, a data point that is exactly, as a real number,
  the centre \<open>((minX + maxX) / 2, (minY + maxY) / 2)\<close> of the box is mapped under the
  zero pan exactly to the centre \<open>(w / 2, h / 2)\<close> of the viewport. The bound on the
  ranges keeps \<open>maxX - minX\<close> from overflowing, which \<open>fl\<close>, with its unbounded
  exponents, does not show; the proof does not use it.
\<close>

theorem transformFl_center:
  assumes rx: "maxX \<noteq> minX" and ry: "maxY \<noteq> minY"
    and ox: "\<bar>maxX - minX\<bar> < 2 ^ 1023" and oy: "\<bar>maxY - minY\<bar> < 2 ^ 1023"
    and dw: "fl w = w" and lw: "40 \<le> w" and uw: "w < 2 ^ 57"
    and dh: "fl h = h" and lh: "40 \<le> h" and uh: "h < 2 ^ 57"
  shows "transformFl minX (rangeOfFl minX maxX) minY (rangeOfFl minY maxY) w h z (0, 0)
           ((minX + maxX) / 2) ((minY + maxY) / 2) = (w / 2, h / 2)"
proof -
  have x: "fl (fl (fl (fl ((minX + maxX) / 2 - minX) / rangeOfFl minX maxX)
             * fl (w - fl (2 * 40))) + 40) = w / 2"
    by (simp only: fl_ratio_half [OF rx] fl_axis [OF dw lw uw])
  have y: "fl (fl (fl (fl ((minY + maxY) / 2 - minY) / rangeOfFl minY maxY)
             * fl (h - fl (2 * 40))) + 40) = h / 2"
    by (simp only: fl_ratio_half [OF ry] fl_axis [OF dh lh uh])
  have cx: "fl (w / 2) = w / 2" by (simp only: fl_half dw)
  have cy: "fl (h / 2) = h / 2" by (simp only: fl_half dh)
  have hy: "fl (h - h / 2) = h / 2"
  proof -
    have "h - h / 2 = h / 2" by simp
    then show ?thesis by (simp only: cy)
  qed
  show ?thesis
    unfolding transformFl_def Let_def x y cx cy hy
    by (simp add: fl_zero cx cy)
qed

theorem transformFl_center_witness:
  "(5 / 8 :: real) \<noteq> 1 / 8 \<and> (10 :: real) \<noteq> 2
   \<and> \<bar>5 / 8 - 1 / 8 :: real\<bar> < 2 ^ 1023 \<and> \<bar>10 - 2 :: real\<bar> < 2 ^ 1023
   \<and> fl 601 = 601 \<and> fl 300 = 300
   \<and> transformFl (1 / 8) (rangeOfFl (1 / 8) (5 / 8)) 2 (rangeOfFl 2 10) 601 300 5 (0, 0)
         (3 / 8) 6 = (601 / 2, 150)"
proof -
  have w: "fl 601 = 601" using fl_repr [of 601 601 0] by simp
  have h: "fl 300 = 300" using fl_repr [of 300 300 0] by simp
  from transformFl_center [of "5 / 8" "1 / 8" 10 2 601 300 5] w h
  show ?thesis by simp
qed

end
